theory Spec2Isabelle
  imports Main
begin

section \<open>Tic-tac-toe: the game logic of \<open>client/src/App.tsx\<close>\<close>

subsection \<open>Data model\<close>

text \<open>
  \<^verbatim>\<open>type Player = "X" | "O"\<close> and \<^verbatim>\<open>type Cell = Player | null\<close>.
  (The constructor names carry a prefix because \<open>O\<close> is relation composition in HOL.)
\<close>

datatype Player = PlayerX | PlayerO

datatype Cell = Null | Mark Player

text \<open>
  A JavaScript array of cells. A slot is \<open>Some c\<close> when it holds the cell \<open>c\<close> and \<open>None\<close>
  when it holds \<^verbatim>\<open>undefined\<close>: no slot of the initial array does, but a write beyond the end
  of an array extends it and leaves such slots behind. (The spread \<^verbatim>\<open>[...board]\<close> turns a
  hole into an explicit \<^verbatim>\<open>undefined\<close>, and \<^verbatim>\<open>every\<close> either skips the slot or finds
  \<^verbatim>\<open>undefined !== null\<close>, so the two need not be told apart.)
\<close>

type_synonym Board = "Cell option list"

text \<open>\<^verbatim>\<open>board[i]\<close>: reading at or beyond the length yields \<^verbatim>\<open>undefined\<close>.\<close>

definition js_get :: "Board \<Rightarrow> nat \<Rightarrow> Cell option" where
  "js_get board i = (if i < length board then board ! i else None)"

text \<open>
  \<^verbatim>\<open>next[i] = v\<close>: inside the array the slot is overwritten; at or beyond the length the
  array grows to length \<open>i + 1\<close>, the slots in between holding \<^verbatim>\<open>undefined\<close>.
\<close>

definition js_set :: "Board \<Rightarrow> nat \<Rightarrow> Cell \<Rightarrow> Board" where
  "js_set board i v =
     (if i < length board then board[i := Some v]
      else board @ replicate (i - length board) None @ [Some v])"

text \<open>Truthiness of a slot's value: \<^verbatim>\<open>null\<close> and \<^verbatim>\<open>undefined\<close> are falsy, a mark is truthy.\<close>

fun truthy :: "Cell option \<Rightarrow> bool" where
  "truthy (Some (Mark p)) = True"
| "truthy (Some Null) = False"
| "truthy None = False"

text \<open>
  A win line is a three-element array, always destructured as \<^verbatim>\<open>[a, b, c]\<close>; it is modelled
  as a triple. \<open>LINES\<close> is the constant of the source, in its order.
\<close>

type_synonym Line = "nat \<times> nat \<times> nat"

definition LINES :: "Line list" where
  "LINES =
    [(0, 1, 2),
     (3, 4, 5),
     (6, 7, 8),
     (0, 3, 6),
     (1, 4, 7),
     (2, 5, 8),
     (0, 4, 8),
     (2, 4, 6)]"

subsection \<open>The evaluator\<close>

text \<open>
  The loop of \<open>getWinner\<close> over the remaining lines:
  \<^verbatim>\<open>const v = board[a]; if (v && v === board[b] && v === board[c]) return { winner: v, line }\<close>.
\<close>

fun getWinner_loop :: "Board \<Rightarrow> Line list \<Rightarrow> (Player \<times> Line) option" where
  "getWinner_loop board [] = None"
| "getWinner_loop board ((a, b, c) # rest) =
     (case js_get board a of
        Some (Mark v) \<Rightarrow>
          if Some (Mark v) = js_get board b \<and> Some (Mark v) = js_get board c
          then Some (v, (a, b, c))
          else getWinner_loop board rest
      | _ \<Rightarrow> getWinner_loop board rest)"

definition getWinner :: "Board \<Rightarrow> (Player \<times> Line) option" where
  "getWinner board = getWinner_loop board LINES"

subsection \<open>The component state and what is derived from it\<close>

record State =
  board :: Board
  current :: Player

text \<open>The initial values of the two \<^verbatim>\<open>useState\<close> hooks.\<close>

definition initial :: State where
  "initial = \<lparr>board = replicate 9 (Some Null), current = PlayerX\<rparr>"

definition winnerInfo :: "State \<Rightarrow> (Player \<times> Line) option" where
  "winnerInfo s = getWinner (board s)"

text \<open>\<^verbatim>\<open>board.every((c) => c !== null) && !winnerInfo\<close>\<close>

definition draw :: "State \<Rightarrow> bool" where
  "draw s = (list_all (\<lambda>c. c \<noteq> Some Null) (board s) \<and> winnerInfo s = None)"

definition gameOver :: "State \<Rightarrow> bool" where
  "gameOver s = (winnerInfo s \<noteq> None \<or> draw s)"

subsection \<open>Transitions\<close>

definition resetGame :: "State \<Rightarrow> State" where
  "resetGame s = s\<lparr>board := replicate 9 (Some Null), current := PlayerX\<rparr>"

text \<open>
  \<open>playAt\<close> reads \<open>gameOver\<close>, \<open>board\<close> and \<open>current\<close> of the latest render; the updater
  \<^verbatim>\<open>(p) => (p === "X" ? "O" : "X")\<close> is applied to that same \<open>current\<close>. The index is
  an array index, a natural number; the function itself checks no range.
\<close>

definition playAt :: "State \<Rightarrow> nat \<Rightarrow> State" where
  "playAt s idx =
     (if gameOver s \<or> truthy (js_get (board s) idx) then s
      else s\<lparr>board := js_set (board s) idx (Mark (current s)),
             current := (if current s = PlayerX then PlayerO else PlayerX)\<rparr>)"

text \<open>
  \<^verbatim>\<open>e.key.toLowerCase()\<close> on the key names made of ASCII characters; other characters are
  left as they are.
\<close>

definition lower_char :: "char \<Rightarrow> char" where
  "lower_char c =
     (if 65 \<le> (of_char c :: nat) \<and> (of_char c :: nat) \<le> 90
      then char_of ((of_char c :: nat) + 32) else c)"

definition toLowerCase :: "string \<Rightarrow> string" where
  "toLowerCase k = map lower_char k"

definition onKeyDown :: "State \<Rightarrow> string \<Rightarrow> State" where
  "onKeyDown s key = (let k = toLowerCase key in if k = ''r'' then resetGame s else s)"

text \<open>
  The input events of the component: a click on the cell button \<open>idx\<close>
  (\<^verbatim>\<open>onClick={() => playAt(idx)}\<close>), a click on the restart button
  (\<^verbatim>\<open>onClick={resetGame}\<close>) and a key press on the window.
\<close>

datatype Event = CellClick nat | RestartClick | KeyDown string

fun handle :: "State \<Rightarrow> Event \<Rightarrow> State" where
  "handle s (CellClick idx) = playAt s idx"
| "handle s RestartClick = resetGame s"
| "handle s (KeyDown key) = onKeyDown s key"

definition run :: "Event list \<Rightarrow> State" where
  "run es = foldl handle initial es"

subsection \<open>The status line\<close>

fun Player_str :: "Player \<Rightarrow> string" where
  "Player_str PlayerX = ''X''"
| "Player_str PlayerO = ''O''"

definition status :: "State \<Rightarrow> string" where
  "status s =
     (case winnerInfo s of
        Some (winner, line) \<Rightarrow> ''Player '' @ Player_str winner @ '' wins''
      | None \<Rightarrow>
          if draw s then ''Draw game''
          else ''Player '' @ Player_str (current s) @ [CHR 0x27] @ ''s turn'')"

subsection \<open>Vocabulary of the properties\<close>

text \<open>Three identical marks \<open>p\<close> along a line.\<close>

fun line_marked :: "Board \<Rightarrow> Line \<Rightarrow> Player \<Rightarrow> bool" where
  "line_marked bd (a, b, c) p =
     (js_get bd a = Some (Mark p) \<and> js_get bd b = Some (Mark p) \<and> js_get bd c = Some (Mark p))"

definition line_won :: "Board \<Rightarrow> Line \<Rightarrow> bool" where
  "line_won bd l = (line_marked bd l PlayerX \<or> line_marked bd l PlayerO)"

text \<open>Every cell holds a mark.\<close>

definition full :: "Board \<Rightarrow> bool" where
  "full bd = list_all truthy bd"

text \<open>A board of the data model: nine slots, each a cell (none \<^verbatim>\<open>undefined\<close>).\<close>

definition wf_board :: "Board \<Rightarrow> bool" where
  "wf_board bd = (length bd = 9 \<and> list_all (\<lambda>c. c \<noteq> None) bd)"

definition count_marks :: "Player \<Rightarrow> Board \<Rightarrow> nat" where
  "count_marks p bd = length (filter (\<lambda>c. c = Some (Mark p)) bd)"

text \<open>The events the rendered view can send: its nine cell buttons carry the indices 0 to 8.\<close>

fun valid_event :: "Event \<Rightarrow> bool" where
  "valid_event (CellClick idx) = (idx < 9)"
| "valid_event RestartClick = True"
| "valid_event (KeyDown key) = True"

definition turn_inv :: "State \<Rightarrow> bool" where
  "turn_inv s =
     (wf_board (board s)
      \<and> (count_marks PlayerX (board s) = count_marks PlayerO (board s)
         \<or> count_marks PlayerX (board s) = count_marks PlayerO (board s) + 1)
      \<and> ((current s = PlayerX) = (count_marks PlayerX (board s) = count_marks PlayerO (board s))))"

text \<open>
  The board after X plays 1, 2, 3, 6 and 0 and O plays 4, 5, 7 and 8: the last move completes
  the top row and the left column at once.
\<close>

definition double_win :: Board where
  "double_win =
    [Some (Mark PlayerX), Some (Mark PlayerX), Some (Mark PlayerX),
     Some (Mark PlayerX), Some (Mark PlayerO), Some (Mark PlayerO),
     Some (Mark PlayerX), Some (Mark PlayerO), Some (Mark PlayerO)]"

section \<open>Properties\<close>

subsection \<open>Arrays\<close>

lemma js_get_js_set_same: "js_get (js_set bd i v) i = Some v"
  by (simp add: js_get_def js_set_def nth_append)

lemma js_get_js_set_other: "j \<noteq> i \<Longrightarrow> js_get (js_set bd i v) j = js_get bd j"
  by (auto simp: js_get_def js_set_def nth_append nth_Cons')

lemma truthy_iff: "truthy v \<longleftrightarrow> (\<exists>p. v = Some (Mark p))"
  by (cases v rule: truthy.cases) simp_all

lemma filter_update_hit:
  "i < length xs \<Longrightarrow> \<not> P (xs ! i) \<Longrightarrow> P v \<Longrightarrow>
     length (filter P (xs[i := v])) = Suc (length (filter P xs))"
  by (induction xs arbitrary: i) (auto split: nat.splits simp: nth_Cons')

lemma filter_update_miss:
  "i < length xs \<Longrightarrow> \<not> P (xs ! i) \<Longrightarrow> \<not> P v \<Longrightarrow>
     length (filter P (xs[i := v])) = length (filter P xs)"
  by (induction xs arbitrary: i) (auto split: nat.splits simp: nth_Cons')

lemma find_only:
  assumes "x \<in> set xs" and "P x" and "\<forall>y \<in> set xs. P y \<longrightarrow> y = x"
  shows "find P xs = Some x"
proof -
  from assms(1,2) have "find P xs \<noteq> None"
    unfolding find_None_iff by blast
  then obtain y where y: "find P xs = Some y"
    by blast
  then have "P y \<and> y \<in> set xs"
    unfolding find_Some_iff by force
  with assms(3) y show ?thesis
    by blast
qed

subsection \<open>The loop of \<open>getWinner\<close> returns at the first complete line\<close>

lemma line_won_iff: "line_won bd l \<longleftrightarrow> (\<exists>p. line_marked bd l p)"
  unfolding line_won_def by (metis Player.exhaust)

lemma line_marked_unique: "line_marked bd l p \<Longrightarrow> line_marked bd l q \<Longrightarrow> p = q"
  by (cases l) simp

lemma getWinner_loop_hit:
  "line_marked bd l q \<Longrightarrow> getWinner_loop bd (l # rest) = Some (q, l)"
  by (cases l) simp

lemma getWinner_loop_miss:
  assumes "\<not> line_won bd l"
  shows "getWinner_loop bd (l # rest) = getWinner_loop bd rest"
proof -
  obtain a b c where l: "l = (a, b, c)"
    by (cases l)
  from assms have "\<not> line_marked bd (a, b, c) q" for q
    by (simp add: line_won_iff l)
  then show ?thesis
    unfolding l by (cases "js_get bd a") (force split: Cell.splits)+
qed

lemma getWinner_loop_None:
  "getWinner_loop bd ls = None \<longleftrightarrow> find (line_won bd) ls = None"
proof (induction ls)
  case Nil
  show ?case by simp
next
  case (Cons l ls)
  show ?case
  proof (cases "line_won bd l")
    case True
    then obtain q where "line_marked bd l q"
      by (auto simp: line_won_iff)
    with True show ?thesis
      by (simp add: getWinner_loop_hit)
  next
    case False
    with Cons show ?thesis
      by (simp add: getWinner_loop_miss)
  qed
qed

lemma getWinner_loop_Some:
  "getWinner_loop bd ls = Some (p, l) \<longleftrightarrow>
     find (line_won bd) ls = Some l \<and> line_marked bd l p"
proof (induction ls)
  case Nil
  show ?case by simp
next
  case (Cons k ls)
  show ?case
  proof (cases "line_won bd k")
    case True
    then obtain q where q: "line_marked bd k q"
      by (auto simp: line_won_iff)
    then have "getWinner_loop bd (k # ls) = Some (q, k)"
      by (rule getWinner_loop_hit)
    with True q show ?thesis
      by (auto dest: line_marked_unique)
  next
    case False
    with Cons show ?thesis
      by (simp add: getWinner_loop_miss)
  qed
qed

lemma full_no_winner_draw:
  "full (board s) \<Longrightarrow> winnerInfo s = None \<Longrightarrow> draw s"
  by (auto simp: full_def draw_def list_all_iff)

lemma wf_not_full:
  assumes "wf_board bd" and "\<not> full bd"
  shows "\<not> list_all (\<lambda>c. c \<noteq> Some Null) bd"
proof -
  from assms(2) obtain c where c: "c \<in> set bd" "\<not> truthy c"
    by (auto simp: full_def list_all_iff)
  from assms(1) c(1) have "c \<noteq> None"
    by (auto simp: wf_board_def list_all_iff)
  with c(2) have "c = Some Null"
    by (simp add: truthy_iff) (metis Cell.exhaust option.exhaust)
  with c(1) show ?thesis
    by (auto simp: list_all_iff)
qed

subsection \<open>The turn invariant\<close>

lemma count_marks_empty: "count_marks p (replicate n (Some Null)) = 0"
  by (simp add: count_marks_def)

lemma wf_board_empty: "wf_board (replicate 9 (Some Null))"
  by (simp add: wf_board_def list_all_iff)

lemma turn_inv_initial: "turn_inv initial"
  by (simp add: turn_inv_def initial_def count_marks_empty wf_board_empty)

lemma turn_inv_resetGame: "turn_inv (resetGame s)"
  by (simp add: turn_inv_def resetGame_def count_marks_empty wf_board_empty)

lemma wf_board_update:
  assumes "wf_board bd" and "idx < 9"
  shows "wf_board (js_set bd idx v)"
proof -
  from assms have "js_set bd idx v = bd[idx := Some v]"
    by (simp add: js_set_def wf_board_def)
  moreover have "set (bd[idx := Some v]) \<subseteq> insert (Some v) (set bd)"
    by (rule set_update_subset_insert)
  ultimately show ?thesis
    using assms(1) by (auto simp: wf_board_def list_all_iff)
qed

lemma count_marks_own:
  assumes "idx < length bd" and "\<not> truthy (js_get bd idx)"
  shows "count_marks p (js_set bd idx (Mark p)) = Suc (count_marks p bd)"
proof -
  from assms have "bd ! idx \<noteq> Some (Mark p)"
    by (auto simp: js_get_def)
  with assms(1) show ?thesis
    by (simp add: count_marks_def js_set_def filter_update_hit)
qed

lemma count_marks_other:
  assumes "idx < length bd" and "\<not> truthy (js_get bd idx)" and "q \<noteq> p"
  shows "count_marks q (js_set bd idx (Mark p)) = count_marks q bd"
proof -
  from assms have "bd ! idx \<noteq> Some (Mark q)"
    by (auto simp: js_get_def)
  with assms(1,3) show ?thesis
    by (simp add: count_marks_def js_set_def filter_update_miss)
qed

lemma turn_inv_playAt:
  assumes inv: "turn_inv s" and idx: "idx < 9"
  shows "turn_inv (playAt s idx)"
proof (cases "gameOver s \<or> truthy (js_get (board s) idx)")
  case True
  with inv show ?thesis
    by (simp add: playAt_def)
next
  case False
  from inv idx have len: "idx < length (board s)"
    by (simp add: turn_inv_def wf_board_def)
  from False have free: "\<not> truthy (js_get (board s) idx)"
    by simp
  from inv idx have wf: "wf_board (js_set (board s) idx (Mark (current s)))"
    by (simp add: turn_inv_def wf_board_update)
  show ?thesis
  proof (cases "current s")
    case PlayerX
    with False have st: "playAt s idx = s\<lparr>board := js_set (board s) idx (Mark PlayerX), current := PlayerO\<rparr>"
      by (simp add: playAt_def)
    from inv PlayerX have eq: "count_marks PlayerX (board s) = count_marks PlayerO (board s)"
      by (simp add: turn_inv_def)
    have "count_marks PlayerX (js_set (board s) idx (Mark PlayerX)) = Suc (count_marks PlayerX (board s))"
      using len free by (rule count_marks_own)
    moreover have "count_marks PlayerO (js_set (board s) idx (Mark PlayerX)) = count_marks PlayerO (board s)"
      using len free by (rule count_marks_other) simp
    ultimately show ?thesis
      using wf eq PlayerX by (simp add: st turn_inv_def)
  next
    case PlayerO
    with False have st: "playAt s idx = s\<lparr>board := js_set (board s) idx (Mark PlayerO), current := PlayerX\<rparr>"
      by (simp add: playAt_def)
    from inv PlayerO have eq: "count_marks PlayerX (board s) = count_marks PlayerO (board s) + 1"
      by (auto simp: turn_inv_def)
    have "count_marks PlayerO (js_set (board s) idx (Mark PlayerO)) = Suc (count_marks PlayerO (board s))"
      using len free by (rule count_marks_own)
    moreover have "count_marks PlayerX (js_set (board s) idx (Mark PlayerO)) = count_marks PlayerX (board s)"
      using len free by (rule count_marks_other) simp
    ultimately show ?thesis
      using wf eq PlayerO by (simp add: st turn_inv_def)
  qed
qed

lemma turn_inv_handle:
  assumes "turn_inv s" and "valid_event e"
  shows "turn_inv (handle s e)"
proof (cases e)
  case (CellClick idx)
  with assms show ?thesis
    by (simp add: turn_inv_playAt)
next
  case RestartClick
  then show ?thesis
    by (simp add: turn_inv_resetGame)
next
  case (KeyDown key)
  with assms(1) show ?thesis
    by (simp add: onKeyDown_def turn_inv_resetGame)
qed

lemma turn_inv_foldl:
  "turn_inv s \<Longrightarrow> list_all valid_event es \<Longrightarrow> turn_inv (foldl handle s es)"
  by (induction es arbitrary: s) (simp_all add: turn_inv_handle)

section \<open>The claims\<close>

text \<open>
  Claim C1, as the code has it. On a board of nine cells: when a win line \<open>l\<close> holds three
  identical marks, \<open>getWinner\<close> returns a winner, the game is not a draw, and the line returned
  is the first line of \<open>LINES\<close> that holds three identical marks, with the mark on it; it is
  \<open>l\<close> itself, with its mark, whenever no other win line is complete. When no line is complete
  and every cell is marked, there is no winner and \<open>draw\<close> holds. On every other board there is
  no winner and no draw.
\<close>

theorem evaluator_first_line_outcome:
  assumes wf: "wf_board (board s)"
  shows "(l \<in> set LINES \<and> line_marked (board s) l p \<longrightarrow>
            (\<exists>p' l'. winnerInfo s = Some (p', l') \<and> \<not> draw s
                    \<and> find (line_won (board s)) LINES = Some l' \<and> line_marked (board s) l' p')
          \<and> ((\<forall>k \<in> set LINES. line_won (board s) k \<longrightarrow> k = l) \<longrightarrow> winnerInfo s = Some (p, l)))
       \<and> ((\<forall>k \<in> set LINES. \<not> line_won (board s) k) \<and> full (board s) \<longrightarrow>
            winnerInfo s = None \<and> draw s)
       \<and> ((\<forall>k \<in> set LINES. \<not> line_won (board s) k) \<and> \<not> full (board s) \<longrightarrow>
            winnerInfo s = None \<and> \<not> draw s)"
proof (intro conjI impI)
  assume lp: "l \<in> set LINES \<and> line_marked (board s) l p"
  then have won: "line_won (board s) l"
    by (auto simp: line_won_iff)
  with lp have "find (line_won (board s)) LINES \<noteq> None"
    unfolding find_None_iff by blast
  then obtain l' where l': "find (line_won (board s)) LINES = Some l'"
    by auto
  then have "line_won (board s) l'"
    unfolding find_Some_iff by force
  then obtain p' where p': "line_marked (board s) l' p'"
    by (auto simp: line_won_iff)
  with l' have w: "winnerInfo s = Some (p', l')"
    by (simp add: winnerInfo_def getWinner_def getWinner_loop_Some)
  then have "\<not> draw s"
    by (simp add: draw_def)
  with w l' p'
  show "\<exists>p' l'. winnerInfo s = Some (p', l') \<and> \<not> draw s
          \<and> find (line_won (board s)) LINES = Some l' \<and> line_marked (board s) l' p'"
    by blast
  assume only: "\<forall>k \<in> set LINES. line_won (board s) k \<longrightarrow> k = l"
  with lp won have "find (line_won (board s)) LINES = Some l"
    by (intro find_only) auto
  with lp show "winnerInfo s = Some (p, l)"
    by (simp add: winnerInfo_def getWinner_def getWinner_loop_Some)
next
  assume a: "(\<forall>k \<in> set LINES. \<not> line_won (board s) k) \<and> full (board s)"
  then show none: "winnerInfo s = None"
    by (simp add: winnerInfo_def getWinner_def getWinner_loop_None find_None_iff)
  with a show "draw s"
    by (simp add: full_no_winner_draw)
next
  assume a: "(\<forall>k \<in> set LINES. \<not> line_won (board s) k) \<and> \<not> full (board s)"
  then show "winnerInfo s = None"
    by (simp add: winnerInfo_def getWinner_def getWinner_loop_None find_None_iff)
  from a wf show "\<not> draw s"
    by (simp add: draw_def wf_not_full)
qed

text \<open>
  The three cases at concrete games: X takes the top row (O playing 3 and 4); a game that
  fills the board with no complete line; the empty board.
\<close>

theorem evaluator_first_line_outcome_witness:
  "wf_board (board (run (map CellClick [0, 3, 1, 4, 2])))
   \<and> (0, 1, 2) \<in> set LINES
   \<and> line_marked (board (run (map CellClick [0, 3, 1, 4, 2]))) (0, 1, 2) PlayerX
   \<and> winnerInfo (run (map CellClick [0, 3, 1, 4, 2])) = Some (PlayerX, (0, 1, 2))
   \<and> wf_board (board (run (map CellClick [0, 1, 2, 4, 3, 5, 7, 6, 8])))
   \<and> full (board (run (map CellClick [0, 1, 2, 4, 3, 5, 7, 6, 8])))
   \<and> draw (run (map CellClick [0, 1, 2, 4, 3, 5, 7, 6, 8]))
   \<and> wf_board (board initial)
   \<and> \<not> full (board initial)
   \<and> winnerInfo initial = None \<and> \<not> draw initial"
proof -
  let ?w = "run (map CellClick [0, 3, 1, 4, 2])"
  let ?d = "run (map CellClick [0, 1, 2, 4, 3, 5, 7, 6, 8])"
  have w1: "wf_board (board ?w)" by code_simp
  have w2: "(0, 1, 2) \<in> set LINES \<and> line_marked (board ?w) (0, 1, 2) PlayerX" by code_simp
  have w3: "\<forall>k \<in> set LINES. line_won (board ?w) k \<longrightarrow> k = (0, 1, 2)" by code_simp
  have d1: "wf_board (board ?d)" by code_simp
  have d2: "(\<forall>k \<in> set LINES. \<not> line_won (board ?d) k) \<and> full (board ?d)" by code_simp
  have i1: "wf_board (board initial)" by code_simp
  have i2: "(\<forall>k \<in> set LINES. \<not> line_won (board initial) k) \<and> \<not> full (board initial)" by code_simp
  from evaluator_first_line_outcome [OF w1, of "(0, 1, 2)" PlayerX] w2 w3
  have "winnerInfo ?w = Some (PlayerX, (0, 1, 2))" by blast
  moreover from evaluator_first_line_outcome [OF d1] d2
  have "draw ?d" by blast
  moreover from evaluator_first_line_outcome [OF i1] i2
  have "winnerInfo initial = None \<and> \<not> draw initial" by blast
  ultimately show ?thesis
    using w1 w2 d1 d2 i1 i2 by blast
qed

text \<open>
  Claim C1 as it is worded promises the line along which the three marks lie. After the game
  X 1, O 4, X 2, O 5, X 3, O 7, X 6, O 8, X 0 the left column \<open>(0, 3, 6)\<close> holds three X, and
  so does the top row; \<open>getWinner\<close> returns the top row, which comes first in \<open>LINES\<close>, and
  not the left column.
\<close>

theorem evaluator_that_line_counterexample:
  "board (run (map CellClick [1, 4, 2, 5, 3, 7, 6, 8, 0])) = double_win
   \<and> wf_board double_win
   \<and> (0, 3, 6) \<in> set LINES
   \<and> line_marked double_win (0, 3, 6) PlayerX
   \<and> getWinner double_win = Some (PlayerX, (0, 1, 2))
   \<and> getWinner double_win \<noteq> Some (PlayerX, (0, 3, 6))"
proof (intro conjI)
  show "board (run (map CellClick [1, 4, 2, 5, 3, 7, 6, 8, 0])) = double_win"
    by code_simp
  show "wf_board double_win"
    by code_simp
  show "(0, 3, 6) \<in> set LINES"
    by (simp add: LINES_def)
  show "line_marked double_win (0, 3, 6) PlayerX"
    by code_simp
  show g: "getWinner double_win = Some (PlayerX, (0, 1, 2))"
    by code_simp
  show "getWinner double_win \<noteq> Some (PlayerX, (0, 3, 6))"
    unfolding g by simp
qed

text \<open>
  Claim C2: when the game is over (\<open>gameOver\<close>: there is a winner, or the board is full with no
  winner) or the target cell holds a mark, \<open>playAt\<close> returns the state it was given, board
  and current player unchanged. \<open>playAt\<close> is a total function to states: it has no error
  result. The property holds for every index, so for the indices 0 to 8.
\<close>

theorem playAt_rejected_unchanged:
  "gameOver s \<or> (\<exists>p. js_get (board s) idx = Some (Mark p)) \<Longrightarrow> playAt s idx = s"
  by (auto simp: playAt_def)

text \<open>
  A second click on cell 0, and a click on the empty cell 8 after X has won the top row.
\<close>

theorem playAt_rejected_unchanged_witness:
  "js_get (board (run [CellClick 0])) 0 = Some (Mark PlayerX)
   \<and> playAt (run [CellClick 0]) 0 = run [CellClick 0]
   \<and> gameOver (run (map CellClick [0, 3, 1, 4, 2]))
   \<and> js_get (board (run (map CellClick [0, 3, 1, 4, 2]))) 8 = Some Null
   \<and> playAt (run (map CellClick [0, 3, 1, 4, 2])) 8 = run (map CellClick [0, 3, 1, 4, 2])"
proof -
  have occ: "js_get (board (run [CellClick 0])) 0 = Some (Mark PlayerX)"
    by code_simp
  have over: "gameOver (run (map CellClick [0, 3, 1, 4, 2]))"
    by code_simp
  have free: "js_get (board (run (map CellClick [0, 3, 1, 4, 2]))) 8 = Some Null"
    by code_simp
  from occ have "playAt (run [CellClick 0]) 0 = run [CellClick 0]"
    by (intro playAt_rejected_unchanged) blast
  moreover from over
  have "playAt (run (map CellClick [0, 3, 1, 4, 2])) 8 = run (map CellClick [0, 3, 1, 4, 2])"
    by (intro playAt_rejected_unchanged) blast
  ultimately show ?thesis
    using occ over free by blast
qed

text \<open>
  Claim C3: when the game is not over and the target cell is empty, \<open>playAt\<close> puts the
  current player's mark at the index and leaves every other position as it was; the board
  keeps its length.
\<close>

theorem playAt_accepted_board:
  assumes "\<not> gameOver s" and "js_get (board s) idx = Some Null"
  shows "js_get (board (playAt s idx)) idx = Some (Mark (current s))
       \<and> (\<forall>j. j \<noteq> idx \<longrightarrow> js_get (board (playAt s idx)) j = js_get (board s) j)
       \<and> length (board (playAt s idx)) = length (board s)"
proof -
  from assms have acc: "board (playAt s idx) = js_set (board s) idx (Mark (current s))"
    by (simp add: playAt_def)
  from assms(2) have "idx < length (board s)"
    by (auto simp: js_get_def split: if_splits)
  then have "length (js_set (board s) idx (Mark (current s))) = length (board s)"
    by (simp add: js_set_def)
  with acc show ?thesis
    by (simp add: js_get_js_set_same js_get_js_set_other)
qed

text \<open>The first move of a game, at the centre.\<close>

theorem playAt_accepted_board_witness:
  "\<not> gameOver initial \<and> js_get (board initial) 4 = Some Null
   \<and> js_get (board (playAt initial 4)) 4 = Some (Mark PlayerX)
   \<and> js_get (board (playAt initial 4)) 5 = Some Null
   \<and> length (board (playAt initial 4)) = 9"
proof -
  have a: "\<not> gameOver initial" by code_simp
  have b: "js_get (board initial) 4 = Some Null" by code_simp
  have c: "current initial = PlayerX" by code_simp
  have d: "js_get (board initial) 5 = Some Null" by code_simp
  have e: "length (board initial) = 9" by code_simp
  from playAt_accepted_board [OF a b] c d e
  have "js_get (board (playAt initial 4)) 4 = Some (Mark PlayerX)
      \<and> js_get (board (playAt initial 4)) 5 = Some Null
      \<and> length (board (playAt initial 4)) = 9"
    by simp
  with a b show ?thesis by blast
qed

text \<open>
  Claim C4: after an accepted move the current player is the other one: X becomes O and
  O becomes X.
\<close>

theorem playAt_accepted_turn:
  assumes "\<not> gameOver s" and "js_get (board s) idx = Some Null"
  shows "current (playAt s idx) = (case current s of PlayerX \<Rightarrow> PlayerO | PlayerO \<Rightarrow> PlayerX)"
  using assms by (simp add: playAt_def split: Player.splits)

text \<open>The first two moves of a game: X at 4, then O at 0.\<close>

theorem playAt_accepted_turn_witness:
  "\<not> gameOver initial \<and> js_get (board initial) 4 = Some Null
   \<and> current initial = PlayerX \<and> current (playAt initial 4) = PlayerO
   \<and> \<not> gameOver (playAt initial 4) \<and> js_get (board (playAt initial 4)) 0 = Some Null
   \<and> current (playAt initial 4) = PlayerO \<and> current (playAt (playAt initial 4) 0) = PlayerX"
proof -
  have a: "\<not> gameOver initial" by code_simp
  have b: "js_get (board initial) 4 = Some Null" by code_simp
  have c: "current initial = PlayerX" by code_simp
  have a': "\<not> gameOver (playAt initial 4)" by code_simp
  have b': "js_get (board (playAt initial 4)) 0 = Some Null" by code_simp
  from playAt_accepted_turn [OF a b] c have d: "current (playAt initial 4) = PlayerO"
    by simp
  from playAt_accepted_turn [OF a' b'] d have "current (playAt (playAt initial 4) 0) = PlayerX"
    by simp
  with a b c d a' b' show ?thesis by blast
qed

text \<open>
  Claim C5: from every state \<open>resetGame\<close> yields the initial state: nine empty cells and
  X to play.
\<close>

theorem resetGame_initial:
  "resetGame s = initial
   \<and> board (resetGame s) = replicate 9 (Some Null)
   \<and> current (resetGame s) = PlayerX"
  by (simp add: resetGame_def initial_def)

text \<open>Reset after X has won the top row.\<close>

theorem resetGame_initial_witness:
  "resetGame (run (map CellClick [0, 3, 1, 4, 2])) = initial
   \<and> board (resetGame (run (map CellClick [0, 3, 1, 4, 2]))) = replicate 9 (Some Null)
   \<and> current (resetGame (run (map CellClick [0, 3, 1, 4, 2]))) = PlayerX"
  by (rule resetGame_initial)

text \<open>
  Claim C6: \<open>LINES\<close> lists the rows from the top, then the columns from the left, then the
  diagonal \<open>(0, 4, 8)\<close>, then the diagonal \<open>(2, 4, 6)\<close>; \<open>getWinner\<close> returns the first line
  of that list holding three identical marks, with the mark on it, and nothing when the list
  has no such line. (\<open>find\<close> returns the first element of a list that satisfies a predicate.)
\<close>

theorem getWinner_first_line:
  "LINES = [(0, 1, 2), (3, 4, 5), (6, 7, 8), (0, 3, 6), (1, 4, 7), (2, 5, 8), (0, 4, 8), (2, 4, 6)]
   \<and> (getWinner bd = Some (p, l)) = (find (line_won bd) LINES = Some l \<and> line_marked bd l p)
   \<and> (getWinner bd = None) = (find (line_won bd) LINES = None)"
proof (intro conjI)
  show "LINES = [(0, 1, 2), (3, 4, 5), (6, 7, 8), (0, 3, 6), (1, 4, 7), (2, 5, 8), (0, 4, 8), (2, 4, 6)]"
    by (fact LINES_def)
  show "(getWinner bd = Some (p, l)) = (find (line_won bd) LINES = Some l \<and> line_marked bd l p)"
    unfolding getWinner_def by (rule getWinner_loop_Some)
  show "(getWinner bd = None) = (find (line_won bd) LINES = None)"
    unfolding getWinner_def by (rule getWinner_loop_None)
qed

text \<open>
  A board of nine O: all eight lines are complete, among them the top row and the last
  diagonal, and the top row is returned.
\<close>

theorem getWinner_first_line_witness:
  "line_won (replicate 9 (Some (Mark PlayerO))) (0, 1, 2)
   \<and> line_won (replicate 9 (Some (Mark PlayerO))) (2, 4, 6)
   \<and> find (line_won (replicate 9 (Some (Mark PlayerO)))) LINES = Some (0, 1, 2)
   \<and> getWinner (replicate 9 (Some (Mark PlayerO))) = Some (PlayerO, (0, 1, 2))"
proof -
  let ?b = "replicate 9 (Some (Mark PlayerO))"
  have a: "line_won ?b (0, 1, 2) \<and> line_won ?b (2, 4, 6)" by code_simp
  have f: "find (line_won ?b) LINES = Some (0, 1, 2)" by code_simp
  have m: "line_marked ?b (0, 1, 2) PlayerO" by code_simp
  from getWinner_first_line [of ?b PlayerO "(0, 1, 2)"] f m
  have "getWinner ?b = Some (PlayerO, (0, 1, 2))" by blast
  with a f show ?thesis by blast
qed

text \<open>
  Claim C7: the status is \<open>Player p wins\<close> when there is a winner \<open>p\<close>, \<open>Draw game\<close> when
  the game is a draw, and \<open>Player c's turn\<close> for the current player \<open>c\<close> otherwise. \<open>status\<close>
  is a function of the state, which has no field for it.
\<close>

theorem status_cases:
  "(winnerInfo s = Some (p, l) \<longrightarrow> status s = ''Player '' @ Player_str p @ '' wins'')
   \<and> (draw s \<longrightarrow> status s = ''Draw game'')
   \<and> (winnerInfo s = None \<and> \<not> draw s \<longrightarrow>
        status s = ''Player '' @ Player_str (current s) @ [CHR 0x27] @ ''s turn'')"
  by (auto simp: status_def draw_def)

text \<open>A won game, a drawn game, and the game after its first move.\<close>

theorem status_cases_witness:
  "winnerInfo (run (map CellClick [0, 3, 1, 4, 2])) = Some (PlayerX, (0, 1, 2))
   \<and> status (run (map CellClick [0, 3, 1, 4, 2])) = ''Player X wins''
   \<and> draw (run (map CellClick [0, 1, 2, 4, 3, 5, 7, 6, 8]))
   \<and> status (run (map CellClick [0, 1, 2, 4, 3, 5, 7, 6, 8])) = ''Draw game''
   \<and> winnerInfo (run [CellClick 4]) = None \<and> \<not> draw (run [CellClick 4])
   \<and> current (run [CellClick 4]) = PlayerO
   \<and> status (run [CellClick 4]) = ''Player O'' @ [CHR 0x27] @ ''s turn''"
proof -
  let ?w = "run (map CellClick [0, 3, 1, 4, 2])"
  let ?d = "run (map CellClick [0, 1, 2, 4, 3, 5, 7, 6, 8])"
  let ?t = "run [CellClick 4]"
  have w: "winnerInfo ?w = Some (PlayerX, (0, 1, 2))" by code_simp
  have d: "draw ?d" by code_simp
  have t: "winnerInfo ?t = None \<and> \<not> draw ?t" by code_simp
  have c: "current ?t = PlayerO" by code_simp
  from status_cases [of ?w PlayerX "(0, 1, 2)"] w have "status ?w = ''Player X wins''"
    by simp
  moreover from status_cases [of ?d] d have "status ?d = ''Draw game''"
    by blast
  moreover from status_cases [of ?t] t c have "status ?t = ''Player O'' @ [CHR 0x27] @ ''s turn''"
    by simp
  ultimately show ?thesis
    using w d t c by blast
qed

text \<open>
  Claim C8: a key press with key \<open>r\<close> or \<open>R\<close> makes the same transition as a click on the
  restart button, which is \<open>resetGame\<close>, and the state after it is the initial state.
\<close>

theorem onKeyDown_r_restarts:
  "handle s (KeyDown ''r'') = handle s RestartClick
   \<and> handle s (KeyDown ''R'') = handle s RestartClick
   \<and> handle s RestartClick = resetGame s
   \<and> resetGame s = initial"
proof -
  have "toLowerCase ''r'' = ''r''" "toLowerCase ''R'' = ''r''"
    by code_simp+
  then show ?thesis
    by (simp add: onKeyDown_def resetGame_def initial_def)
qed

text \<open>Restart by key and by button in the middle of a game.\<close>

theorem onKeyDown_r_restarts_witness:
  "handle (run (map CellClick [0, 3, 1])) (KeyDown ''r'') = initial
   \<and> handle (run (map CellClick [0, 3, 1])) (KeyDown ''R'') = initial
   \<and> handle (run (map CellClick [0, 3, 1])) RestartClick = initial"
  using onKeyDown_r_restarts [of "run (map CellClick [0, 3, 1])"] by simp

text \<open>
  Claim C9: in every state reached from the initial state by clicks on the cells 0 to 8,
  restarts and key presses, the board has nine cells (none \<^verbatim>\<open>undefined\<close>), the number of
  X marks is the number of O marks or one more, and X is to play exactly when the two numbers
  are equal.
\<close>

theorem reachable_turn_invariant:
  assumes "list_all valid_event es"
  shows "length (board (run es)) = 9
       \<and> list_all (\<lambda>c. c \<noteq> None) (board (run es))
       \<and> (count_marks PlayerX (board (run es)) = count_marks PlayerO (board (run es))
          \<or> count_marks PlayerX (board (run es)) = count_marks PlayerO (board (run es)) + 1)
       \<and> ((current (run es) = PlayerX)
            = (count_marks PlayerX (board (run es)) = count_marks PlayerO (board (run es))))"
proof -
  from assms have "turn_inv (run es)"
    unfolding run_def by (intro turn_inv_foldl turn_inv_initial)
  then show ?thesis
    unfolding turn_inv_def wf_board_def by simp
qed

text \<open>
  X at 4, O at 0, a rejected click on 4, a key that is not the shortcut, X at 8.
\<close>

theorem reachable_turn_invariant_witness:
  "list_all valid_event [CellClick 4, CellClick 0, CellClick 4, KeyDown ''x'', CellClick 8]
   \<and> length (board (run [CellClick 4, CellClick 0, CellClick 4, KeyDown ''x'', CellClick 8])) = 9
   \<and> count_marks PlayerX (board (run [CellClick 4, CellClick 0, CellClick 4, KeyDown ''x'', CellClick 8])) = 2
   \<and> count_marks PlayerO (board (run [CellClick 4, CellClick 0, CellClick 4, KeyDown ''x'', CellClick 8])) = 1
   \<and> current (run [CellClick 4, CellClick 0, CellClick 4, KeyDown ''x'', CellClick 8]) \<noteq> PlayerX"
proof -
  let ?es = "[CellClick 4, CellClick 0, CellClick 4, KeyDown ''x'', CellClick 8]"
  have v: "list_all valid_event ?es" by code_simp
  have x: "count_marks PlayerX (board (run ?es)) = 2" by code_simp
  have o: "count_marks PlayerO (board (run ?es)) = 1" by code_simp
  from reachable_turn_invariant [OF v] x o
  have "length (board (run ?es)) = 9 \<and> current (run ?es) \<noteq> PlayerX"
    by simp
  with v x o show ?thesis by blast
qed

text \<open>
  Claim C10: \<open>playAt\<close> checks no range. On a nine-cell board of a game that is not over, an
  index of 9 or more reads \<^verbatim>\<open>undefined\<close>, so the guard does not fire; the current player's
  mark is written at that index, the state changes, and the board is longer than nine cells.
\<close>

theorem playAt_out_of_range_extends:
  assumes "length (board s) = 9" and "\<not> gameOver s" and "9 \<le> idx"
  shows "js_get (board s) idx = None
       \<and> playAt s idx \<noteq> s
       \<and> js_get (board (playAt s idx)) idx = Some (Mark (current s))
       \<and> length (board (playAt s idx)) = idx + 1"
proof -
  from assms(1,3) have g: "js_get (board s) idx = None"
    by (simp add: js_get_def)
  with assms(2) have b: "board (playAt s idx) = js_set (board s) idx (Mark (current s))"
    by (simp add: playAt_def)
  from assms(1,3) have len: "length (js_set (board s) idx (Mark (current s))) = idx + 1"
    by (simp add: js_set_def)
  with b assms(1,3) have "length (board (playAt s idx)) \<noteq> length (board s)"
    by simp
  then have "playAt s idx \<noteq> s"
    by auto
  with g b len show ?thesis
    by (simp add: js_get_js_set_same)
qed

text \<open>Index 9 on the initial state.\<close>

theorem playAt_out_of_range_extends_witness:
  "length (board initial) = 9 \<and> \<not> gameOver initial \<and> (9::nat) \<le> 9
   \<and> playAt initial 9 \<noteq> initial
   \<and> js_get (board (playAt initial 9)) 9 = Some (Mark PlayerX)
   \<and> length (board (playAt initial 9)) = 10
   \<and> playAt initial 9 = \<lparr>board = replicate 9 (Some Null) @ [Some (Mark PlayerX)], current = PlayerO\<rparr>"
proof -
  have a: "length (board initial) = 9" by code_simp
  have b: "\<not> gameOver initial" by code_simp
  have c: "current initial = PlayerX" by code_simp
  have d: "playAt initial 9 = \<lparr>board = replicate 9 (Some Null) @ [Some (Mark PlayerX)], current = PlayerO\<rparr>"
    by code_simp
  from playAt_out_of_range_extends [OF a b, of 9] c
  have "playAt initial 9 \<noteq> initial
      \<and> js_get (board (playAt initial 9)) 9 = Some (Mark PlayerX)
      \<and> length (board (playAt initial 9)) = 10"
    by simp
  with a b d show ?thesis by simp
qed

end
